theory Spec2Isabelle
  imports Main "HOL-Library.Sublist" "HOL-Library.AList"
begin

section \<open>Text, lines and exceptions\<close>

text \<open>
  A Python \<open>str\<close> is modelled as a \<open>string\<close> whose characters are code points
  below 256. The characters that \<open>reader.py\<close> and the \<open>csv\<close> module treat specially
  are named here.
\<close>

abbreviation TAB :: char where "TAB \<equiv> CHR 0x09"
abbreviation LF :: char where "LF \<equiv> CHR 0x0A"
abbreviation CR :: char where "CR \<equiv> CHR 0x0D"
abbreviation DQUOTE :: char where "DQUOTE \<equiv> CHR 0x22"

text \<open>
  The exceptions that can leave the reader. \<open>StopIteration\<close> is the iterator
  protocol's end-of-sequence signal; the others carry their message. \<open>CsvError\<close> is
  \<open>csv.Error\<close>, and \<open>OSError\<close> stands for the file access errors that the constructor's
  first assertion can raise.
\<close>

datatype exn =
    StopIteration
  | ValueError string
  | TypeError string
  | KeyError string
  | CsvError string
  | OSError string

text \<open>
  \<open>str.isspace\<close> on one character, for code points below 256: the characters that
  \<open>str.strip()\<close> without arguments removes.
\<close>

definition isspace :: "char \<Rightarrow> bool" where
  "isspace c = (c \<in> set [CHR 0x09, CHR 0x0A, CHR 0x0B, CHR 0x0C, CHR 0x0D,
                          CHR 0x1C, CHR 0x1D, CHR 0x1E, CHR 0x1F, CHR 0x20,
                          CHR 0x85, CHR 0xA0])"

text \<open>\<open>s.strip()\<close>: leading and trailing whitespace removed.\<close>

definition strip :: "string \<Rightarrow> string" where
  "strip s = rev (dropWhile isspace (rev (dropWhile isspace s)))"

text \<open>\<open>s.startswith(p)\<close>.\<close>

definition startswith :: "string \<Rightarrow> string \<Rightarrow> bool" where
  "startswith s p = prefix p s"

text \<open>
  \<open>s.split(sep)\<close> with an explicit separator: the occurrences of \<open>sep\<close> are found from
  left to right without overlap, and the pieces between them are returned, empty pieces
  included. An empty separator raises \<open>ValueError\<close>.
\<close>

fun split_from :: "string \<Rightarrow> string \<Rightarrow> string \<Rightarrow> string list" where
  "split_from [] acc s = [acc @ s]"
| "split_from (p # ps) acc [] = [acc]"
| "split_from (p # ps) acc (c # cs) =
     (if prefix (p # ps) (c # cs)
      then acc # split_from (p # ps) [] (drop (length ps) cs)
      else split_from (p # ps) (acc @ [c]) cs)"

definition split :: "string \<Rightarrow> string \<Rightarrow> exn + string list" where
  "split s sep =
     (if sep = [] then Inl (ValueError ''empty separator'') else Inr (split_from sep [] s))"

text \<open>
  \<open>path.open("r")\<close> opens the file in text mode with universal newlines: \<open>\r\n\<close> and a
  lone \<open>\r\<close> are read as \<open>\n\<close>. Iterating the file object yields its lines, each with
  its terminating \<open>\n\<close> (the last line has none when the file does not end in one).
\<close>

fun universal_newlines :: "string \<Rightarrow> string" where
  "universal_newlines [] = []"
| "universal_newlines [c] = [if c = CR then LF else c]"
| "universal_newlines (c # c' # cs) =
     (if c = CR \<and> c' = LF then LF # universal_newlines cs
      else if c = CR then LF # universal_newlines (c' # cs)
      else c # universal_newlines (c' # cs))"

fun lines_from :: "string \<Rightarrow> string \<Rightarrow> string list" where
  "lines_from acc [] = (if acc = [] then [] else [acc])"
| "lines_from acc (c # cs) =
     (if c = LF then (acc @ [c]) # lines_from [] cs else lines_from (acc @ [c]) cs)"

definition file_lines :: "string \<Rightarrow> string list" where
  "file_lines content = lines_from [] (universal_newlines content)"

text \<open>
  An open text file: the lines not yet read and whether it has been closed. The reader's
  \<open>_fin\<close> and the file inside its \<open>DictReader\<close> are one object, so the reader holds one
  such value.
\<close>

record textfile =
  unread :: "string list"
  closed :: bool

definition open_text :: "string \<Rightarrow> textfile" where
  "open_text content = \<lparr>unread = file_lines content, closed = False\<rparr>"

definition closed_file_error :: exn where
  "closed_file_error = ValueError ''I/O operation on closed file.''"

section \<open>The header parser\<close>

text \<open>\<open>FileHeader\<close>: the preface lines and the fieldnames.\<close>

record FileHeader =
  preface :: "string list"
  fieldnames :: "string list"

text \<open>
  The \<open>for line in reader\<close> loop of \<open>_get_header\<close>. A line that starts with the comment
  prefix or is blank after \<open>strip()\<close> is appended, stripped, to the preface; the first
  other line ends the loop by \<open>break\<close>. The result is \<open>None\<close> when the loop runs to the
  end of the file (the \<open>else\<close> branch of the \<open>for\<close>), and otherwise the preface and the line
  at which it broke; the second component is what is left unread.
\<close>

fun header_loop :: "string \<Rightarrow> string list \<Rightarrow> string list \<Rightarrow> (string list \<times> string) option \<times> string list" where
  "header_loop cc pre [] = (None, [])"
| "header_loop cc pre (line # rest) =
     (if startswith line cc \<or> strip line = []
      then header_loop cc (pre @ [strip line]) rest
      else (Some (pre, line), rest))"

text \<open>
  \<open>_get_header\<close>, with \<open>self.delimiter\<close> and \<open>self.header_comment_char\<close> as arguments.
  Reading a closed file raises; the split raises on an empty delimiter.
\<close>

definition get_header :: "string \<Rightarrow> string \<Rightarrow> textfile \<Rightarrow> (exn + FileHeader option) \<times> textfile" where
  "get_header delim cc f =
     (if closed f then (Inl closed_file_error, f)
      else case header_loop cc [] (unread f) of
        (None, rest) \<Rightarrow> (Inr None, f\<lparr>unread := rest\<rparr>)
      | (Some (pre, line), rest) \<Rightarrow>
          (case split (strip line) delim of
             Inl e \<Rightarrow> (Inl e, f\<lparr>unread := rest\<rparr>)
           | Inr names \<Rightarrow> (Inr (Some \<lparr>preface = pre, fieldnames = names\<rparr>), f\<lparr>unread := rest\<rparr>)))"

section \<open>The row splitter\<close>

text \<open>
  \<open>csv.reader\<close> in the dialect the reader uses: the \<open>excel\<close> defaults (quote character
  \<open>"\<close>, doubled quotes, no escape character, no skipping of initial spaces, not strict,
  minimal quoting) with the delimiter replaced. The parser keeps the fields finished so
  far, the field being read and its state; \<open>None\<close> as a character is the end-of-line
  mark the reader feeds after the characters of each line. A field longer than the
  field size limit raises \<open>csv.Error\<close>. A NUL character is an ordinary character, as
  it is from CPython 3.11 on.
\<close>

datatype parser_state =
  START_RECORD | START_FIELD | IN_FIELD | IN_QUOTED_FIELD | QUOTE_IN_QUOTED_FIELD | EAT_CRNL

record parser =
  state :: parser_state
  cur_fields :: "string list"
  cur_field :: string

definition field_limit :: nat where
  "field_limit = 131072"

definition parse_reset :: parser where
  "parse_reset = \<lparr>state = START_RECORD, cur_fields = [], cur_field = []\<rparr>"

definition parse_save_field :: "parser \<Rightarrow> parser" where
  "parse_save_field p = p\<lparr>cur_fields := cur_fields p @ [cur_field p], cur_field := []\<rparr>"

definition parse_add_char :: "parser \<Rightarrow> char \<Rightarrow> exn + parser" where
  "parse_add_char p c =
     (if field_limit \<le> length (cur_field p)
      then Inl (CsvError ''field larger than field limit (131072)'')
      else Inr (p\<lparr>cur_field := cur_field p @ [c]\<rparr>))"

definition set_state :: "parser_state \<Rightarrow> exn + parser \<Rightarrow> exn + parser" where
  "set_state s r = (case r of Inl e \<Rightarrow> Inl e | Inr p \<Rightarrow> Inr (p\<lparr>state := s\<rparr>))"

text \<open>The \<open>START_FIELD\<close> case, which \<open>START_RECORD\<close> falls through to.\<close>

definition start_field :: "char \<Rightarrow> parser \<Rightarrow> char option \<Rightarrow> exn + parser" where
  "start_field d p c =
     (case c of
        None \<Rightarrow> Inr ((parse_save_field p)\<lparr>state := START_RECORD\<rparr>)
      | Some ch \<Rightarrow>
          if ch = LF \<or> ch = CR then Inr ((parse_save_field p)\<lparr>state := EAT_CRNL\<rparr>)
          else if ch = DQUOTE then Inr (p\<lparr>state := IN_QUOTED_FIELD\<rparr>)
          else if ch = d then Inr ((parse_save_field p)\<lparr>state := START_FIELD\<rparr>)
          else set_state IN_FIELD (parse_add_char p ch))"

definition parse_process_char :: "char \<Rightarrow> parser \<Rightarrow> char option \<Rightarrow> exn + parser" where
  "parse_process_char d p c =
     (case state p of
        START_RECORD \<Rightarrow>
          (if c = None then Inr p
           else if c = Some LF \<or> c = Some CR then Inr (p\<lparr>state := EAT_CRNL\<rparr>)
           else start_field d p c)
      | START_FIELD \<Rightarrow> start_field d p c
      | IN_FIELD \<Rightarrow>
          (case c of
             None \<Rightarrow> Inr ((parse_save_field p)\<lparr>state := START_RECORD\<rparr>)
           | Some ch \<Rightarrow>
               if ch = LF \<or> ch = CR then Inr ((parse_save_field p)\<lparr>state := EAT_CRNL\<rparr>)
               else if ch = d then Inr ((parse_save_field p)\<lparr>state := START_FIELD\<rparr>)
               else parse_add_char p ch)
      | IN_QUOTED_FIELD \<Rightarrow>
          (case c of
             None \<Rightarrow> Inr p
           | Some ch \<Rightarrow>
               if ch = DQUOTE then Inr (p\<lparr>state := QUOTE_IN_QUOTED_FIELD\<rparr>)
               else parse_add_char p ch)
      | QUOTE_IN_QUOTED_FIELD \<Rightarrow>
          (case c of
             None \<Rightarrow> Inr ((parse_save_field p)\<lparr>state := START_RECORD\<rparr>)
           | Some ch \<Rightarrow>
               if ch = DQUOTE then set_state IN_QUOTED_FIELD (parse_add_char p ch)
               else if ch = d then Inr ((parse_save_field p)\<lparr>state := START_FIELD\<rparr>)
               else if ch = LF \<or> ch = CR then Inr ((parse_save_field p)\<lparr>state := EAT_CRNL\<rparr>)
               else set_state IN_FIELD (parse_add_char p ch))
      | EAT_CRNL \<Rightarrow>
          (case c of
             None \<Rightarrow> Inr (p\<lparr>state := START_RECORD\<rparr>)
           | Some ch \<Rightarrow>
               if ch = LF \<or> ch = CR then Inr p
               else Inl (CsvError ''new-line character seen in unquoted field - do you need to open the file with newline=?'')))"

text \<open>The characters of one line, in order, stopping at the first error.\<close>

fun process_chars :: "char \<Rightarrow> parser \<Rightarrow> string \<Rightarrow> exn + parser" where
  "process_chars d p [] = Inr p"
| "process_chars d p (c # cs) =
     (case parse_process_char d p (Some c) of
        Inl e \<Rightarrow> Inl e
      | Inr p' \<Rightarrow> process_chars d p' cs)"

text \<open>
  The \<open>do ... while (state != START_RECORD)\<close> loop of the reader's \<open>__next__\<close>: lines are
  taken until a record is complete. At the end of the input an unfinished field is
  still returned (the dialect is not strict); otherwise the end of the input is
  \<open>StopIteration\<close>.
\<close>

fun reader_loop :: "char \<Rightarrow> parser \<Rightarrow> string list \<Rightarrow> (exn + string list) \<times> string list" where
  "reader_loop d p [] =
     (if cur_field p \<noteq> [] \<or> state p = IN_QUOTED_FIELD
      then (Inr (cur_fields (parse_save_field p)), [])
      else (Inl StopIteration, []))"
| "reader_loop d p (line # others) =
     (case process_chars d p line of
        Inl e \<Rightarrow> (Inl e, others)
      | Inr p' \<Rightarrow>
          (case parse_process_char d p' None of
             Inl e \<Rightarrow> (Inl e, others)
           | Inr p'' \<Rightarrow>
               if state p'' \<noteq> START_RECORD then reader_loop d p'' others
               else (Inr (cur_fields p''), others)))"

definition csv_reader_next :: "char \<Rightarrow> textfile \<Rightarrow> (exn + string list) \<times> textfile" where
  "csv_reader_next d f =
     (if closed f then (Inl closed_file_error, f)
      else case reader_loop d parse_reset (unread f) of
        (r, others) \<Rightarrow> (r, f\<lparr>unread := others\<rparr>))"

text \<open>
  The dictionary \<open>csv.DictReader\<close> builds for a row. Its keys are the fieldnames, which
  are strings, and the rest key, which is \<open>None\<close>; the two kinds of key are kept apart
  here. A fieldname maps to its cell, or to the rest value \<open>None\<close> when the row is too
  short; the rest key maps to the surplus cells of a row that is too long.
\<close>

record row_dict =
  by_name :: "(string \<times> string option) list"
  by_restkey :: "string list option"

definition make_row :: "string list \<Rightarrow> string list \<Rightarrow> row_dict" where
  "make_row names row =
     (let d = fold (\<lambda>(k, v). AList.update k (Some v)) (zip names row) [];
          lf = length names;
          lr = length row
      in if lf < lr then \<lparr>by_name = d, by_restkey = Some (drop lf row)\<rparr>
         else if lr < lf
         then \<lparr>by_name = fold (\<lambda>k. AList.update k None) (drop lr names) d, by_restkey = None\<rparr>
         else \<lparr>by_name = d, by_restkey = None\<rparr>)"

lemma reader_loop_unread: "reader_loop d p ls = (r, others) \<Longrightarrow> length others \<le> length ls"
proof (induction ls arbitrary: p)
  case Nil
  then show ?case by (simp split: if_splits)
next
  case (Cons l ls)
  then show ?case
    by (fastforce split: sum.splits if_splits)
qed

lemma csv_reader_next_consumes:
  assumes "csv_reader_next d f = (Inr row, f')"
  shows "length (unread f') < length (unread f)"
proof (cases "unread f")
  case Nil
  with assms show ?thesis
    by (simp add: csv_reader_next_def parse_reset_def split: if_splits)
next
  case (Cons l ls)
  from assms have nc: "\<not> closed f"
    by (auto simp: csv_reader_next_def)
  obtain r others where rl: "reader_loop d parse_reset (l # ls) = (r, others)"
    by (cases "reader_loop d parse_reset (l # ls)")
  with assms nc Cons have f': "unread f' = others"
    by (auto simp: csv_reader_next_def)
  have "length others \<le> length ls"
    using rl by (auto split: sum.splits if_splits dest: reader_loop_unread)
  with f' Cons show ?thesis by simp
qed

text \<open>
  \<open>DictReader.__next__\<close>, with the fieldnames given at construction: rows that are empty
  lists (blank lines) are skipped.
\<close>

function dict_reader_next :: "char \<Rightarrow> string list \<Rightarrow> textfile \<Rightarrow> (exn + row_dict) \<times> textfile" where
  "dict_reader_next d names f =
     (case csv_reader_next d f of
        (Inl e, f') \<Rightarrow> (Inl e, f')
      | (Inr row, f') \<Rightarrow>
          if row = [] then dict_reader_next d names f'
          else (Inr (make_row names row), f'))"
  by pat_completeness auto
termination
  by (relation "measure (\<lambda>(d, names, f). length (unread f))")
     (auto dest: csv_reader_next_consumes [OF sym])

declare dict_reader_next.simps [simp del]

lemma dict_reader_next_consumes:
  "dict_reader_next d names f = (Inr row, f') \<Longrightarrow> length (unread f') < length (unread f)"
proof (induction d names f rule: dict_reader_next.induct)
  case (1 d names f)
  obtain r g where step: "csv_reader_next d f = (r, g)"
    by (cases "csv_reader_next d f")
  show ?case
  proof (cases r)
    case (Inl e)
    with step "1.prems" show ?thesis
      by (simp add: dict_reader_next.simps [of d names f])
  next
    case (Inr cells)
    with step have less: "length (unread g) < length (unread f)"
      by (simp add: csv_reader_next_consumes)
    show ?thesis
    proof (cases "cells = []")
      case True
      with step Inr "1.prems" have "dict_reader_next d names g = (Inr row, f')"
        by (simp add: dict_reader_next.simps [of d names f])
      with "1.IH" [OF step [symmetric] Inr True] less show ?thesis
        by simp
    next
      case False
      with step Inr "1.prems" less show ?thesis
        by (auto simp: dict_reader_next.simps [of d names f])
    qed
  qed
qed

section \<open>Record types and the row decoder\<close>

text \<open>
  What \<open>dataclasses.fields\<close> gives for a field of the record type: its name and its
  declared type, which the decoder calls on the raw cell. The cell is a string, or
  \<open>None\<close> when the row was too short; the call returns a value or raises.
\<close>

record 'v Field =
  field_name :: string
  field_type :: "string option \<Rightarrow> exn + 'v"

text \<open>A record type: its \<open>__name__\<close> and its fields in declaration order.\<close>

record 'v dataclass =
  cls_name :: string
  cls_fields :: "'v Field list"

text \<open>
  An instance of the record type is the keyword dictionary it was constructed from, in
  insertion order: \<open>dataclass_type(**coerced_values)\<close> stores each keyword under the field
  of that name.
\<close>

type_synonym 'v DataclassInstance = "(string \<times> 'v) list"

text \<open>
  The \<open>for field in fields(...)\<close> loop of \<open>_row_to_dataclass\<close>: \<open>row[field.name]\<close> raises
  \<open>KeyError\<close> on a missing key, \<open>field.type(value)\<close> raises what the type raises, and
  nothing is caught.
\<close>

fun coerce_loop :: "'v Field list \<Rightarrow> row_dict \<Rightarrow> 'v DataclassInstance \<Rightarrow> exn + 'v DataclassInstance" where
  "coerce_loop [] row coerced_values = Inr coerced_values"
| "coerce_loop (fld # flds) row coerced_values =
     (case map_of (by_name row) (field_name fld) of
        None \<Rightarrow> Inl (KeyError (field_name fld))
      | Some val \<Rightarrow>
          (case field_type fld val of
             Inl e \<Rightarrow> Inl e
           | Inr v \<Rightarrow> coerce_loop flds row (AList.update (field_name fld) v coerced_values)))"

definition row_to_dataclass :: "'v dataclass \<Rightarrow> row_dict \<Rightarrow> exn + 'v DataclassInstance" where
  "row_to_dataclass dc row = coerce_loop (cls_fields dc) row []"

section \<open>The reader\<close>

text \<open>
  The attributes of a \<open>DataclassReader\<close>. The \<open>DictReader\<close> in \<open>_reader\<close> is given by its
  fieldnames and its delimiter; the file it reads is \<open>fin\<close>.
\<close>

record 'v DataclassReader =
  dataclass_type :: "'v dataclass"
  delimiter :: string
  header_comment_char :: string
  fin :: textfile
  header :: FileHeader
  reader_fieldnames :: "string list"
  reader_delimiter :: char

definition missing_header_message :: "string \<Rightarrow> string" where
  "missing_header_message path = ''Could not find a header in the provided file: '' @ path"

definition mismatch_message :: "'v dataclass \<Rightarrow> string \<Rightarrow> string" where
  "mismatch_message dc path =
     ''The provided file does not have the same field names as the provided dataclass:'' @ [LF]
     @ [TAB] @ ''Dataclass: '' @ cls_name dc @ [LF]
     @ [TAB] @ ''File: '' @ path @ [LF]
     @ [TAB] @ ''Dataclass fields: '' @ cls_name dc @ [LF]
     @ [TAB] @ ''File: '' @ path @ [LF]"

definition delimiter_error :: exn where
  "delimiter_error = TypeError ([DQUOTE] @ ''delimiter'' @ [DQUOTE] @ '' must be a 1-character string'')"

text \<open>
  \<open>DataclassReader.__init__\<close>. The two assertions it starts with are defined outside
  \<open>reader.py\<close>; their outcomes are the first two arguments (\<open>None\<close> when the assertion
  passes, the exception when it raises). \<open>content\<close> is the text of the file at \<open>path\<close>.
  \<open>DictReader\<close> raises \<open>TypeError\<close> unless the delimiter is one character; \<open>**kwds\<close> is
  accepted and not used.
\<close>

definition dataclass_reader_init ::
  "exn option \<Rightarrow> exn option \<Rightarrow> string \<Rightarrow> string \<Rightarrow> 'v dataclass \<Rightarrow> string \<Rightarrow> string
   \<Rightarrow> exn + 'v DataclassReader" where
  "dataclass_reader_init file_is_readable dataclass_is_valid path content dc delim cc =
     (case file_is_readable of
        Some e \<Rightarrow> Inl e
      | None \<Rightarrow>
     (case dataclass_is_valid of
        Some e \<Rightarrow> Inl e
      | None \<Rightarrow>
     (case get_header delim cc (open_text content) of
        (Inl e, f) \<Rightarrow> Inl e
      | (Inr None, f) \<Rightarrow> Inl (ValueError (missing_header_message path))
      | (Inr (Some h), f) \<Rightarrow>
          if fieldnames h \<noteq> map field_name (cls_fields dc)
          then Inl (ValueError (mismatch_message dc path))
          else (case delim of
                  [d] \<Rightarrow>
                    Inr \<lparr>dataclass_type = dc, delimiter = delim, header_comment_char = cc,
                         fin = f, header = h,
                         reader_fieldnames = fieldnames h, reader_delimiter = d\<rparr>
                | _ \<Rightarrow> Inl delimiter_error))))"

text \<open>\<open>__next__\<close>: the next row of the \<open>DictReader\<close>, decoded.\<close>

definition dataclass_reader_next ::
  "'v DataclassReader \<Rightarrow> (exn + 'v DataclassInstance) \<times> 'v DataclassReader" where
  "dataclass_reader_next r =
     (case dict_reader_next (reader_delimiter r) (reader_fieldnames r) (fin r) of
        (Inl e, f) \<Rightarrow> (Inl e, r\<lparr>fin := f\<rparr>)
      | (Inr row, f) \<Rightarrow> (row_to_dataclass (dataclass_type r) row, r\<lparr>fin := f\<rparr>))"

text \<open>\<open>__exit__\<close>: the file is closed.\<close>

definition dataclass_reader_exit :: "'v DataclassReader \<Rightarrow> 'v DataclassReader" where
  "dataclass_reader_exit r = r\<lparr>fin := (fin r)\<lparr>closed := True\<rparr>\<rparr>"

lemma dataclass_reader_next_consumes:
  "dataclass_reader_next r = (Inr x, r') \<Longrightarrow>
   length (unread (fin r')) < length (unread (fin r))"
  by (auto simp: dataclass_reader_next_def split: prod.splits sum.splits
           dest: dict_reader_next_consumes)

text \<open>
  Iterating the reader to its end, as \<open>[row for row in reader]\<close> does: the records
  yielded, in order, and the exception that ended the iteration (\<open>StopIteration\<close> when
  the rows ran out), with the reader as it is left.
\<close>

function iterate ::
  "'v DataclassReader \<Rightarrow> 'v DataclassInstance list \<times> exn \<times> 'v DataclassReader" where
  "iterate r =
     (case dataclass_reader_next r of
        (Inl e, r') \<Rightarrow> ([], e, r')
      | (Inr x, r') \<Rightarrow> (case iterate r' of (xs, e, r'') \<Rightarrow> (x # xs, e, r'')))"
  by pat_completeness auto
termination
  by (relation "measure (\<lambda>r. length (unread (fin r)))")
     (auto dest: dataclass_reader_next_consumes [OF sym])

declare iterate.simps [simp del]

section \<open>The field types of the examples\<close>

text \<open>
  The values of the fields in the examples are strings and integers, and the field
  types are Python's \<open>str\<close> and \<open>int\<close>. \<open>str(None)\<close> is the text \<open>None\<close>. \<open>int\<close> accepts
  surrounding whitespace, a sign, and decimal digits that single underscores may
  separate; it rejects \<open>None\<close> with \<open>TypeError\<close>, any other text with \<open>ValueError\<close>, and a
  literal of more than 4300 digits with \<open>ValueError\<close>. The messages are given without
  the offending text that Python appends.
\<close>

datatype pyval = PyStr string | PyInt int

definition py_str :: "string option \<Rightarrow> exn + pyval" where
  "py_str x = (case x of None \<Rightarrow> Inr (PyStr ''None'') | Some s \<Rightarrow> Inr (PyStr s))"

definition isdigit :: "char \<Rightarrow> bool" where
  "isdigit c = (c \<in> set ''0123456789'')"

definition digit_value :: "char \<Rightarrow> int" where
  "digit_value c = int (of_char c) - 48"

fun int_digits :: "int \<Rightarrow> string \<Rightarrow> int option" where
  "int_digits acc [] = Some acc"
| "int_digits acc [c] = (if isdigit c then Some (10 * acc + digit_value c) else None)"
| "int_digits acc (c # c' # cs) =
     (if isdigit c then int_digits (10 * acc + digit_value c) (c' # cs)
      else if c = CHR ''_'' \<and> isdigit c' then int_digits (10 * acc + digit_value c') cs
      else None)"

definition int_literal :: "string \<Rightarrow> int option" where
  "int_literal lit = (case lit of [] \<Rightarrow> None | c # cs \<Rightarrow> if isdigit c then int_digits 0 lit else None)"

definition invalid_literal :: exn where
  "invalid_literal = ValueError ''invalid literal for int() with base 10''"

definition py_int :: "string option \<Rightarrow> exn + pyval" where
  "py_int x =
     (case x of
        None \<Rightarrow> Inl (TypeError ''int() argument must be a string, a bytes-like object or a real number'')
      | Some s \<Rightarrow>
          (let t = strip s;
               neg = (take 1 t = ''-'');
               u = (if take 1 t = ''-'' \<or> take 1 t = ''+'' then drop 1 t else t);
               lit = takeWhile (\<lambda>c. isdigit c \<or> c = CHR ''_'') u;
               tail = dropWhile (\<lambda>c. isdigit c \<or> c = CHR ''_'') u
           in case int_literal lit of
                None \<Rightarrow> Inl invalid_literal
              | Some n \<Rightarrow>
                  if 4300 < length (filter isdigit lit)
                  then Inl (ValueError ''Exceeds the limit (4300 digits) for integer string conversion'')
                  else if tail \<noteq> [] then Inl invalid_literal
                  else Inr (PyInt (if neg then - n else n))))"

text \<open>The record type of the examples: \<open>foo: str\<close>, \<open>bar: int\<close>.\<close>

definition FakeDataclass :: "pyval dataclass" where
  "FakeDataclass =
     \<lparr>cls_name = ''FakeDataclass'',
      cls_fields = [\<lparr>field_name = ''foo'', field_type = py_str\<rparr>,
                    \<lparr>field_name = ''bar'', field_type = py_int\<rparr>]\<rparr>"

text \<open>The record type of the quoted-header test: \<open>id: str\<close>, \<open>title: str\<close>.\<close>

definition FakeDataclass_id_title :: "pyval dataclass" where
  "FakeDataclass_id_title =
     \<lparr>cls_name = ''FakeDataclass'',
      cls_fields = [\<lparr>field_name = ''id'', field_type = py_str\<rparr>,
                    \<lparr>field_name = ''title'', field_type = py_str\<rparr>]\<rparr>"

section \<open>Example files and readers\<close>

text \<open>Scenario A: the file \<open>foo\tbar\<close>, \<open>abc\t1\<close>.\<close>

definition scenario_A :: string where
  "scenario_A = ''foo'' @ [TAB] @ ''bar'' @ [LF] @ ''abc'' @ [TAB] @ ''1'' @ [LF]"

text \<open>Scenario B: the same file after the preface lines \<open># note\<close> and an empty line.\<close>

definition scenario_B :: string where
  "scenario_B = ''# note'' @ [LF, LF] @ ''foo'' @ [TAB] @ ''bar'' @ [LF] @ ''abc'' @ [TAB] @ ''1'' @ [LF]"

text \<open>
  The reader that the constructor returns for a record type with the default delimiter
  and comment prefix, given the preface it found and the lines still unread.
\<close>

definition example_reader ::
  "pyval dataclass \<Rightarrow> string list \<Rightarrow> string list \<Rightarrow> bool \<Rightarrow> pyval DataclassReader" where
  "example_reader dc pre ls c =
     \<lparr>dataclass_type = dc, delimiter = [TAB], header_comment_char = ''#'',
      fin = \<lparr>unread = ls, closed = c\<rparr>,
      header = \<lparr>preface = pre, fieldnames = map field_name (cls_fields dc)\<rparr>,
      reader_fieldnames = map field_name (cls_fields dc), reader_delimiter = TAB\<rparr>"

section \<open>The header parser as the specification words it\<close>

text \<open>
  The specification's account of the header parser, for comparison with \<open>get_header\<close>: a
  line is preface when, without its line terminator, it is empty or begins with the
  comment prefix; preface lines are kept without their line terminator; the first other
  line, without its terminator, is split on the delimiter.
\<close>

definition chomp :: "string \<Rightarrow> string" where
  "chomp l = (if l \<noteq> [] \<and> last l = LF then butlast l else l)"

fun spec_header_loop ::
  "string \<Rightarrow> string \<Rightarrow> string list \<Rightarrow> string list \<Rightarrow> (FileHeader \<times> string list) option" where
  "spec_header_loop delim cc pre [] = None"
| "spec_header_loop delim cc pre (line # rest) =
     (if chomp line = [] \<or> startswith (chomp line) cc
      then spec_header_loop delim cc (pre @ [chomp line]) rest
      else Some (\<lparr>preface = pre, fieldnames = split_from delim [] (chomp line)\<rparr>, rest))"

section \<open>The file format: rows of cells and what they decode to\<close>




text \<open>
  The record that a row of cells stands for: every field's type is applied, in
  declaration order, to the cell at the field's position, or to \<open>None\<close> when the row
  has no cell there; the first error ends the decoding; cells beyond the last field
  play no part.
\<close>

fun decode_cells :: "'v Field list \<Rightarrow> string list \<Rightarrow> exn + 'v DataclassInstance" where
  "decode_cells [] cells = Inr []"
| "decode_cells (f # fs) cells =
     (case field_type f (case cells of [] \<Rightarrow> None | c # _ \<Rightarrow> Some c) of
        Inl e \<Rightarrow> Inl e
      | Inr v \<Rightarrow>
          (case decode_cells fs (tl cells) of
             Inl e \<Rightarrow> Inl e
           | Inr r \<Rightarrow> Inr ((field_name f, v) # r)))"

text \<open>The value a row holds at a position.\<close>

definition cell_at :: "string list \<Rightarrow> nat \<Rightarrow> string option" where
  "cell_at cells i = (if i < length cells then Some (cells ! i) else None)"



section \<open>Facts about text\<close>

lemmas text_defs = open_text_def file_lines_def startswith_def strip_def isspace_def split_def

lemma split_from_nonempty: "split_from sep acc s \<noteq> []"
  by (induction sep acc s rule: split_from.induct) auto

lemma strip_empty_iff: "strip l = [] \<longleftrightarrow> list_all isspace l"
proof
  assume "strip l = []"
  then have a: "dropWhile isspace (rev (dropWhile isspace l)) = []"
    by (simp add: strip_def)
  show "list_all isspace l"
  proof (cases "dropWhile isspace l = []")
    case True
    then show ?thesis by (simp add: list_all_iff)
  next
    case False
    then have "\<not> isspace (hd (dropWhile isspace l))"
      by (rule hd_dropWhile)
    moreover from a have "\<forall>x\<in>set (dropWhile isspace l). isspace x"
      by simp
    ultimately show ?thesis using False by (metis list.set_sel(1))
  qed
next
  assume "list_all isspace l"
  then have d: "dropWhile isspace l = []"
    by (simp add: list_all_iff)
  show "strip l = []"
    unfolding strip_def d by simp
qed

lemma header_loop_all_preface:
  "\<forall>l\<in>set ls. startswith l cc \<or> list_all isspace l \<Longrightarrow> header_loop cc pre ls = (None, [])"
  by (induction ls arbitrary: pre) (auto simp: strip_empty_iff)

section \<open>The header parser: results\<close>

text \<open>
  C9. Whenever the header parser returns a \<open>FileHeader\<close>, its fieldnames are a non-empty
  list, whatever the stream, the delimiter and the comment prefix are.
\<close>

theorem get_header_fieldnames_nonempty:
  "get_header delim cc f = (Inr (Some h), f') \<Longrightarrow> fieldnames h \<noteq> []"
  by (auto simp: get_header_def split_def split_from_nonempty
           split: if_splits prod.splits option.splits sum.splits)

theorem get_header_fieldnames_nonempty_witness:
  "get_header [TAB] ''#'' (open_text (''# note'' @ [LF, LF] @ ''foo'' @ [TAB] @ ''bar'' @ [LF]))
     = (Inr (Some \<lparr>preface = [''# note'', []], fieldnames = [''foo'', ''bar'']\<rparr>),
        \<lparr>unread = [], closed = False\<rparr>)
   \<and> fieldnames \<lparr>preface = [''# note'', []], fieldnames = [''foo'', ''bar'']\<rparr> \<noteq> []"
proof -
  have h: "get_header [TAB] ''#'' (open_text (''# note'' @ [LF, LF] @ ''foo'' @ [TAB] @ ''bar'' @ [LF]))
     = (Inr (Some \<lparr>preface = [''# note'', []], fieldnames = [''foo'', ''bar'']\<rparr>),
        \<lparr>unread = [], closed = False\<rparr>)"
    by (simp add: get_header_def text_defs)
  from get_header_fieldnames_nonempty [OF h] h show ?thesis by simp
qed

section \<open>Opening the reader: results\<close>

text \<open>
  C5. When every line of the file starts with the comment prefix or is blank (the empty
  file included), the header parser returns \<open>None\<close> and does not raise, and the
  constructor raises the missing-header \<open>ValueError\<close>, whose message names the path.
\<close>

theorem missing_header:
  assumes "\<forall>l\<in>set (file_lines content). startswith l cc \<or> list_all isspace l"
  shows "fst (get_header delim cc (open_text content)) = Inr None
       \<and> dataclass_reader_init None None path content dc delim cc
           = Inl (ValueError (''Could not find a header in the provided file: '' @ path))"
  using header_loop_all_preface [OF assms]
  by (simp add: get_header_def open_text_def dataclass_reader_init_def missing_header_message_def)

theorem missing_header_witness:
  "list_all (\<lambda>l. startswith l ''#'' \<or> list_all isspace l)
       (file_lines (''# a comment'' @ [LF] @ ''  '' @ [LF, LF] @ ''#''))
   \<and> fst (get_header [TAB] ''#'' (open_text (''# a comment'' @ [LF] @ ''  '' @ [LF, LF] @ ''#'')))
       = Inr None
   \<and> dataclass_reader_init None None ''test.txt''
         (''# a comment'' @ [LF] @ ''  '' @ [LF, LF] @ ''#'') FakeDataclass [TAB] ''#''
       = Inl (ValueError ''Could not find a header in the provided file: test.txt'')"
proof -
  have h: "\<forall>l\<in>set (file_lines (''# a comment'' @ [LF] @ ''  '' @ [LF, LF] @ ''#'')).
             startswith l ''#'' \<or> list_all isspace l"
    by (simp add: text_defs)
  from missing_header [OF h, of "[TAB]" "''test.txt''" FakeDataclass] h show ?thesis
    by (simp add: list_all_iff)
qed



text \<open>
  C7. The message of the schema-mismatch error. For the file \<open>foo\tbaz\<close>, \<open>abc\t1\<close> read as
  \<open>FakeDataclass\<close> (fields \<open>foo\<close>, \<open>bar\<close>) it names the record type and the path, each
  twice; the line labelled \<open>Dataclass fields\<close> repeats the type name, and neither
  sequence of field names appears. A file with the fieldnames \<open>x\<close>, \<open>y\<close> gets the same
  message.
\<close>

theorem mismatch_message_at_scenario_C:
  "dataclass_reader_init None None ''test.txt''
       (''foo'' @ [TAB] @ ''baz'' @ [LF] @ ''abc'' @ [TAB] @ ''1'' @ [LF]) FakeDataclass [TAB] ''#''
     = Inl (ValueError
         (''The provided file does not have the same field names as the provided dataclass:'' @ [LF]
          @ [TAB] @ ''Dataclass: FakeDataclass'' @ [LF]
          @ [TAB] @ ''File: test.txt'' @ [LF]
          @ [TAB] @ ''Dataclass fields: FakeDataclass'' @ [LF]
          @ [TAB] @ ''File: test.txt'' @ [LF]))
   \<and> dataclass_reader_init None None ''test.txt''
       (''x'' @ [TAB] @ ''y'' @ [LF]) FakeDataclass [TAB] ''#''
     = dataclass_reader_init None None ''test.txt''
       (''foo'' @ [TAB] @ ''baz'' @ [LF] @ ''abc'' @ [TAB] @ ''1'' @ [LF]) FakeDataclass [TAB] ''#''"
  by (simp add: dataclass_reader_init_def get_header_def text_defs mismatch_message_def
                FakeDataclass_def)

text \<open>
  C2. The file of the repository's test \<open>test_read_csv_with_header_quotes\<close>: the header
  line is \<open>"id"\t"title"\<close> and the record type has the fields \<open>id\<close> and \<open>title\<close>. The
  header parser keeps the quotes in the fieldnames, the row splitter removes them from
  the same line, and the constructor raises the schema-mismatch error.
\<close>

theorem quoted_header_is_rejected:
  "fst (get_header [TAB] ''#'' (open_text
       ([DQUOTE] @ ''id'' @ [DQUOTE, TAB, DQUOTE] @ ''title'' @ [DQUOTE, LF]
        @ [DQUOTE] @ ''fake'' @ [DQUOTE, TAB, DQUOTE] @ ''A fake object'' @ [DQUOTE, LF])))
     = Inr (Some \<lparr>preface = [],
                  fieldnames = [[DQUOTE] @ ''id'' @ [DQUOTE], [DQUOTE] @ ''title'' @ [DQUOTE]]\<rparr>)
   \<and> fst (csv_reader_next TAB (open_text
       ([DQUOTE] @ ''id'' @ [DQUOTE, TAB, DQUOTE] @ ''title'' @ [DQUOTE, LF]
        @ [DQUOTE] @ ''fake'' @ [DQUOTE, TAB, DQUOTE] @ ''A fake object'' @ [DQUOTE, LF])))
     = Inr [''id'', ''title'']
   \<and> dataclass_reader_init None None ''test.txt''
       ([DQUOTE] @ ''id'' @ [DQUOTE, TAB, DQUOTE] @ ''title'' @ [DQUOTE, LF]
        @ [DQUOTE] @ ''fake'' @ [DQUOTE, TAB, DQUOTE] @ ''A fake object'' @ [DQUOTE, LF])
       FakeDataclass_id_title [TAB] ''#''
     = Inl (ValueError (mismatch_message FakeDataclass_id_title ''test.txt''))"
  by (simp add: dataclass_reader_init_def get_header_def text_defs FakeDataclass_id_title_def
                csv_reader_next_def parse_reset_def parse_process_char_def start_field_def
                parse_save_field_def parse_add_char_def set_state_def field_limit_def)

section \<open>Evaluation and iteration lemmas\<close>

lemmas csv_defs = csv_reader_next_def parse_reset_def parse_process_char_def start_field_def
  parse_save_field_def parse_add_char_def set_state_def field_limit_def closed_file_error_def

lemmas reader_defs = dataclass_reader_init_def dataclass_reader_next_def dataclass_reader_exit_def
  row_to_dataclass_def make_row_def get_header_def example_reader_def
  FakeDataclass_def FakeDataclass_id_title_def

lemmas type_defs = py_str_def py_int_def int_literal_def isdigit_def digit_value_def
  invalid_literal_def

lemma iterate_stop: "dataclass_reader_next r = (Inl e, r') \<Longrightarrow> iterate r = ([], e, r')"
  by (simp add: iterate.simps [of r])

lemma iterate_step:
  "dataclass_reader_next r = (Inr x, r') \<Longrightarrow> iterate r' = (xs, e, r'') \<Longrightarrow>
   iterate r = (x # xs, e, r'')"
  by (simp add: iterate.simps [of r])

lemma header_loop_prefix:
  assumes "\<forall>l\<in>set pre. startswith l cc \<or> list_all isspace l"
      and "\<not> startswith line cc" and "\<not> list_all isspace line"
  shows "header_loop cc acc (pre @ line # rest) = (Some (acc @ map strip pre, line), rest)"
  using assms by (induction pre arbitrary: acc) (auto simp: strip_empty_iff)

lemma example_next_row:
  "dataclass_reader_next (example_reader FakeDataclass pre [''abc'' @ [TAB] @ ''1'' @ [LF]] False)
   = (Inr [(''foo'', PyStr ''abc''), (''bar'', PyInt 1)], example_reader FakeDataclass pre [] False)"
  by (simp add: reader_defs text_defs csv_defs type_defs dict_reader_next.simps)

lemma example_next_end:
  "dataclass_reader_next (example_reader dc pre [] False)
   = (Inl StopIteration, example_reader dc pre [] False)"
  by (simp add: reader_defs csv_defs dict_reader_next.simps)

lemma example_iterate:
  "iterate (example_reader FakeDataclass pre [''abc'' @ [TAB] @ ''1'' @ [LF]] False)
   = ([[(''foo'', PyStr ''abc''), (''bar'', PyInt 1)]], StopIteration,
      example_reader FakeDataclass pre [] False)"
  by (rule iterate_step [OF example_next_row iterate_stop [OF example_next_end]])

lemma scenario_A_open:
  "dataclass_reader_init None None ''test.txt'' scenario_A FakeDataclass [TAB] ''#''
   = Inr (example_reader FakeDataclass [] [''abc'' @ [TAB] @ ''1'' @ [LF]] False)"
  by (simp add: scenario_A_def reader_defs text_defs)

section \<open>The header parser: the fieldname row\<close>

text \<open>
  C6, as the code has it. The header parser takes as preface each leading line that
  begins with the comment prefix or consists of whitespace only, and keeps it with all
  leading and trailing whitespace removed. The first other line is the fieldname row:
  its text, with leading and trailing whitespace removed, is split on the delimiter,
  and the lines after it are left unread. The witness is scenario B, where the preface
  is \<open># note\<close> and the empty string, the fieldnames are \<open>foo\<close> and \<open>bar\<close>, and iterating
  yields the one record.
\<close>

theorem get_header_finds_fieldname_row:
  assumes "\<not> closed f" and "unread f = pre @ line # rest"
      and "\<forall>l\<in>set pre. startswith l cc \<or> list_all isspace l"
      and "\<not> startswith line cc" and "\<not> list_all isspace line"
      and "delim \<noteq> []"
  shows "get_header delim cc f
           = (Inr (Some \<lparr>preface = map strip pre,
                          fieldnames = split_from delim [] (strip line)\<rparr>),
              f\<lparr>unread := rest\<rparr>)"
  using assms header_loop_prefix [of pre cc line "[]" rest]
  by (simp add: get_header_def split_def)

theorem get_header_finds_fieldname_row_witness:
  "get_header [TAB] ''#'' (open_text scenario_B)
     = (Inr (Some \<lparr>preface = [''# note'', []], fieldnames = [''foo'', ''bar'']\<rparr>),
        \<lparr>unread = [''abc'' @ [TAB] @ ''1'' @ [LF]], closed = False\<rparr>)
   \<and> dataclass_reader_init None None ''test.txt'' scenario_B FakeDataclass [TAB] ''#''
     = Inr (example_reader FakeDataclass [''# note'', []] [''abc'' @ [TAB] @ ''1'' @ [LF]] False)
   \<and> iterate (example_reader FakeDataclass [''# note'', []] [''abc'' @ [TAB] @ ''1'' @ [LF]] False)
     = ([[(''foo'', PyStr ''abc''), (''bar'', PyInt 1)]], StopIteration,
        example_reader FakeDataclass [''# note'', []] [] False)"
proof -
  have u: "unread (open_text scenario_B)
             = [''# note'' @ [LF], [LF]] @ (''foo'' @ [TAB] @ ''bar'' @ [LF]) # [''abc'' @ [TAB] @ ''1'' @ [LF]]"
    by (simp add: scenario_B_def text_defs)
  have h: "get_header [TAB] ''#'' (open_text scenario_B)
     = (Inr (Some \<lparr>preface = [''# note'', []], fieldnames = [''foo'', ''bar'']\<rparr>),
        \<lparr>unread = [''abc'' @ [TAB] @ ''1'' @ [LF]], closed = False\<rparr>)"
    using get_header_finds_fieldname_row [OF _ u, of "''#''" "[TAB]"]
    by (simp add: text_defs)
  then have "dataclass_reader_init None None ''test.txt'' scenario_B FakeDataclass [TAB] ''#''
     = Inr (example_reader FakeDataclass [''# note'', []] [''abc'' @ [TAB] @ ''1'' @ [LF]] False)"
    by (simp add: dataclass_reader_init_def example_reader_def FakeDataclass_def)
  with h example_iterate show ?thesis by simp
qed

text \<open>
  C6 as stated fails on three inputs. A line of two spaces is neither empty nor a
  comment, yet the parser takes it as preface, where the specification's wording makes
  it the fieldname row. The comment line \<open># note\<close> followed by two spaces is kept
  without the spaces, and the fieldname row \<open>foo\tbar\t\<close> loses its empty third
  fieldname, where the wording removes line terminators only.
\<close>

theorem header_parser_counterexample:
  "fst (get_header [TAB] ''#''
          \<lparr>unread = [''  '' @ [LF], ''foo'' @ [TAB] @ ''bar'' @ [LF]], closed = False\<rparr>)
     = Inr (Some \<lparr>preface = [[]], fieldnames = [''foo'', ''bar'']\<rparr>)
   \<and> spec_header_loop [TAB] ''#'' [] [''  '' @ [LF], ''foo'' @ [TAB] @ ''bar'' @ [LF]]
     = Some (\<lparr>preface = [], fieldnames = [''  '']\<rparr>, [''foo'' @ [TAB] @ ''bar'' @ [LF]])
   \<and> fst (get_header [TAB] ''#''
          \<lparr>unread = [''# note  '' @ [LF], ''foo'' @ [TAB] @ ''bar'' @ [TAB, LF]], closed = False\<rparr>)
     = Inr (Some \<lparr>preface = [''# note''], fieldnames = [''foo'', ''bar'']\<rparr>)
   \<and> spec_header_loop [TAB] ''#'' [] [''# note  '' @ [LF], ''foo'' @ [TAB] @ ''bar'' @ [TAB, LF]]
     = Some (\<lparr>preface = [''# note  ''], fieldnames = [''foo'', ''bar'', []]\<rparr>, [])"
  by (simp add: get_header_def text_defs chomp_def)

section \<open>Advancing the reader: results\<close>

text \<open>
  C8, as the code has it. When the file has no unread line and is not closed, advancing
  raises \<open>StopIteration\<close>, the ordinary end of the iteration, and leaves the reader as it
  is, so every further advance does the same. After \<open>__exit__\<close> has closed the file,
  advancing raises \<open>ValueError\<close> for an operation on a closed file. Neither yields a
  record.
\<close>

theorem advance_after_exhausted_or_closed:
  "(unread (fin r) = [] \<and> \<not> closed (fin r) \<longrightarrow>
      dataclass_reader_next r = (Inl StopIteration, r))
   \<and> dataclass_reader_next (dataclass_reader_exit r)
       = (Inl (ValueError ''I/O operation on closed file.''), dataclass_reader_exit r)"
  by (simp add: dataclass_reader_next_def dataclass_reader_exit_def csv_defs
       dict_reader_next.simps)

theorem advance_after_exhausted_or_closed_witness:
  "unread (fin (example_reader FakeDataclass [] [] False)) = []
   \<and> \<not> closed (fin (example_reader FakeDataclass [] [] False))
   \<and> dataclass_reader_next (example_reader FakeDataclass [] [] False)
       = (Inl StopIteration, example_reader FakeDataclass [] [] False)
   \<and> dataclass_reader_next (dataclass_reader_exit (example_reader FakeDataclass [] [] False))
       = (Inl (ValueError ''I/O operation on closed file.''),
          example_reader FakeDataclass [] [] True)"
  using advance_after_exhausted_or_closed [of "example_reader FakeDataclass [] [] False"]
  by (simp add: example_reader_def dataclass_reader_exit_def)

text \<open>
  C8 as stated fails in the exhausted state: after scenario A has been read to its
  end, a further advance raises \<open>StopIteration\<close> again, which is how an iterator ends
  and not an error of misuse.
\<close>

theorem advance_after_exhausted_counterexample:
  "dataclass_reader_init None None ''test.txt'' scenario_A FakeDataclass [TAB] ''#''
     = Inr (example_reader FakeDataclass [] [''abc'' @ [TAB] @ ''1'' @ [LF]] False)
   \<and> iterate (example_reader FakeDataclass [] [''abc'' @ [TAB] @ ''1'' @ [LF]] False)
     = ([[(''foo'', PyStr ''abc''), (''bar'', PyInt 1)]], StopIteration,
        example_reader FakeDataclass [] [] False)
   \<and> dataclass_reader_next (example_reader FakeDataclass [] [] False)
     = (Inl StopIteration, example_reader FakeDataclass [] [] False)"
  using scenario_A_open example_iterate [of "[]"] example_next_end [of FakeDataclass "[]"]
  by simp

lemma coerce_loop_first_error:
  assumes "\<forall>g\<in>set before. \<exists>c v. map_of (by_name row) (field_name g) = Some c \<and> field_type g c = Inr v"
      and "map_of (by_name row) (field_name fld) = Some cell"
      and "field_type fld cell = Inl e"
  shows "coerce_loop (before @ fld # after) row acc = Inl e"
  using assms by (induction before arbitrary: acc) auto

text \<open>
  C4, as the code has it. Let advancing reach a row, and let \<open>fld\<close> be the first field
  whose type raises on the value the row holds for it, which is the cell's text, or
  \<open>None\<close> when the row is too short to have that cell. Then \<open>__next__\<close> raises exactly that
  error, the row is consumed, and no record is returned. The witness is scenario E: the
  row \<open>abc\tnotanumber\<close> raises the error of \<open>int\<close>, and iterating yields no record.
\<close>

theorem coercion_error_propagates:
  assumes "dict_reader_next (reader_delimiter r) (reader_fieldnames r) (fin r) = (Inr row, f)"
      and "cls_fields (dataclass_type r) = before @ fld # after"
      and "\<forall>g\<in>set before. \<exists>c v. map_of (by_name row) (field_name g) = Some c \<and> field_type g c = Inr v"
      and "map_of (by_name row) (field_name fld) = Some cell"
      and "field_type fld cell = Inl e"
  shows "dataclass_reader_next r = (Inl e, r\<lparr>fin := f\<rparr>)"
  using assms(1,2) coerce_loop_first_error [OF assms(3,4,5), of after "[]"]
  by (simp add: dataclass_reader_next_def row_to_dataclass_def)

theorem coercion_error_propagates_witness:
  "dataclass_reader_next (example_reader FakeDataclass [] [''abc'' @ [TAB] @ ''notanumber'' @ [LF]] False)
     = (Inl (ValueError ''invalid literal for int() with base 10''),
        example_reader FakeDataclass [] [] False)
   \<and> iterate (example_reader FakeDataclass [] [''abc'' @ [TAB] @ ''notanumber'' @ [LF]] False)
     = ([], ValueError ''invalid literal for int() with base 10'',
        example_reader FakeDataclass [] [] False)
   \<and> py_int (Some ''notanumber'') = Inl (ValueError ''invalid literal for int() with base 10'')"
proof -
  let ?r = "example_reader FakeDataclass [] [''abc'' @ [TAB] @ ''notanumber'' @ [LF]] False"
  let ?row = "\<lparr>by_name = [(''foo'', Some ''abc''), (''bar'', Some ''notanumber'')], by_restkey = None\<rparr>"
  have a: "dict_reader_next (reader_delimiter ?r) (reader_fieldnames ?r) (fin ?r)
             = (Inr ?row, \<lparr>unread = [], closed = False\<rparr>)"
    by (simp add: reader_defs csv_defs dict_reader_next.simps)
  have b: "cls_fields (dataclass_type ?r)
             = [\<lparr>field_name = ''foo'', field_type = py_str\<rparr>] @ \<lparr>field_name = ''bar'', field_type = py_int\<rparr> # []"
    by (simp add: reader_defs)
  have c: "\<forall>g\<in>set [\<lparr>field_name = ''foo'', field_type = py_str\<rparr>].
             \<exists>c v. map_of (by_name ?row) (field_name g) = Some c \<and> field_type g c = Inr v"
    by (simp add: py_str_def)
  have d: "map_of (by_name ?row) (field_name \<lparr>field_name = ''bar'', field_type = py_int\<rparr>) = Some (Some ''notanumber'')"
    by simp
  have e: "field_type \<lparr>field_name = ''bar'', field_type = py_int\<rparr> (Some ''notanumber'')
             = Inl (ValueError ''invalid literal for int() with base 10'')"
    by (simp add: type_defs text_defs)
  have n: "dataclass_reader_next ?r
     = (Inl (ValueError ''invalid literal for int() with base 10''),
        example_reader FakeDataclass [] [] False)"
    using coercion_error_propagates [OF a b c d e] by (simp add: example_reader_def)
  from n iterate_stop [OF n] e show ?thesis by simp
qed

text \<open>
  C4 as stated fails for a row with the wrong number of cells. The row \<open>abc\t1\textra\<close>
  has three cells for the two fields \<open>foo: str\<close>, \<open>bar: int\<close> and yields a record. The
  row \<open>fake\<close> has one cell for the two fields \<open>id: str\<close>, \<open>title: str\<close> and yields a record
  too, whose \<open>title\<close> is \<open>str(None)\<close>. Neither raises.
\<close>

theorem wrong_cell_count_counterexample:
  "iterate (example_reader FakeDataclass [] [''abc'' @ [TAB] @ ''1'' @ [TAB] @ ''extra'' @ [LF]] False)
     = ([[(''foo'', PyStr ''abc''), (''bar'', PyInt 1)]], StopIteration,
        example_reader FakeDataclass [] [] False)
   \<and> iterate (example_reader FakeDataclass_id_title [] [''fake'' @ [LF]] False)
     = ([[(''id'', PyStr ''fake''), (''title'', PyStr ''None'')]], StopIteration,
        example_reader FakeDataclass_id_title [] [] False)"
proof -
  have a: "dataclass_reader_next
             (example_reader FakeDataclass [] [''abc'' @ [TAB] @ ''1'' @ [TAB] @ ''extra'' @ [LF]] False)
           = (Inr [(''foo'', PyStr ''abc''), (''bar'', PyInt 1)], example_reader FakeDataclass [] [] False)"
    by (simp add: reader_defs text_defs csv_defs type_defs dict_reader_next.simps)
  have b: "dataclass_reader_next (example_reader FakeDataclass_id_title [] [''fake'' @ [LF]] False)
           = (Inr [(''id'', PyStr ''fake''), (''title'', PyStr ''None'')],
              example_reader FakeDataclass_id_title [] [] False)"
    by (simp add: reader_defs text_defs csv_defs type_defs dict_reader_next.simps)
  from iterate_step [OF a iterate_stop [OF example_next_end]]
       iterate_step [OF b iterate_stop [OF example_next_end]]
  show ?thesis by simp
qed

section \<open>Rows of plain cells\<close>










section \<open>Decoding a row of cells\<close>

lemma update_fresh: "k \<notin> fst ` set al \<Longrightarrow> AList.update k v al = al @ [(k, v)]"
  by (induction al) auto

lemma fold_update_cells:
  "distinct (map fst ps) \<Longrightarrow> fst ` set ps \<inter> fst ` set acc = {} \<Longrightarrow>
   fold (\<lambda>(k, v). AList.update k (Some v)) ps acc = acc @ map (\<lambda>(k, v). (k, Some v)) ps"
proof (induction ps arbitrary: acc)
  case Nil
  then show ?case by simp
next
  case (Cons p ps)
  obtain k v where p: "p = (k, v)" by (cases p)
  from Cons.prems p have fresh: "k \<notin> fst ` set acc" by auto
  have "fst ` set ps \<inter> fst ` set (acc @ [(k, Some v)]) = {}"
    using Cons.prems p by (auto simp: image_iff)
  with Cons.IH [of "acc @ [(k, Some v)]"] Cons.prems p fresh show ?case
    by (simp add: update_fresh)
qed

lemma fold_update_restval:
  "distinct ks \<Longrightarrow> set ks \<inter> fst ` set acc = {} \<Longrightarrow>
   fold (\<lambda>k. AList.update k None) ks acc = acc @ map (\<lambda>k. (k, None)) ks"
proof (induction ks arbitrary: acc)
  case Nil
  then show ?case by simp
next
  case (Cons k ks)
  from Cons.prems have fresh: "k \<notin> fst ` set acc" by auto
  have "set ks \<inter> fst ` set (acc @ [(k, None)]) = {}"
    using Cons.prems by auto
  with Cons.IH [of "acc @ [(k, None)]"] Cons.prems fresh show ?case
    by (simp add: update_fresh)
qed

lemma zip_keys: "map fst (zip names (cells :: 'b list)) = take (length cells) names"
proof (induction names arbitrary: cells)
  case Nil
  then show ?case by simp
next
  case (Cons n ns)
  then show ?case by (cases cells) simp_all
qed

lemma cell_keys:
  "fst ` set (map (\<lambda>(k, v). (k, Some v)) (zip names cells)) = set (take (length cells) names)"
proof -
  have "map fst (map (\<lambda>(k, v). (k, Some v)) (zip names cells)) = map fst (zip names cells)"
    by (simp add: case_prod_unfold)
  then have "set (map fst (map (\<lambda>(k, v). (k, Some v)) (zip names cells)))
               = set (take (length cells) names)"
    by (simp only: zip_keys)
  then show ?thesis by (simp only: set_map)
qed

lemma by_name_make_row:
  assumes "distinct names"
  shows "by_name (make_row names cells)
           = map (\<lambda>(k, v). (k, Some v)) (zip names cells)
             @ map (\<lambda>k. (k, None)) (drop (length cells) names)"
proof -
  have z: "distinct (map fst (zip names cells))"
    using assms by (simp add: zip_keys)
  have d: "fold (\<lambda>(k, v). AList.update k (Some v)) (zip names cells) []
             = map (\<lambda>(k, v). (k, Some v)) (zip names cells)"
    using fold_update_cells [OF z, of "[]"] by simp
  note keys = cell_keys [of names cells]
  have disj: "set (drop (length cells) names) \<inter> set (take (length cells) names) = {}"
    using assms by (metis append_take_drop_id distinct_append inf_commute)
  have r: "fold (\<lambda>k. AList.update k None) (drop (length cells) names)
             (map (\<lambda>(k, v). (k, Some v)) (zip names cells))
           = map (\<lambda>(k, v). (k, Some v)) (zip names cells)
             @ map (\<lambda>k. (k, None)) (drop (length cells) names)"
  proof (rule fold_update_restval)
    show "distinct (drop (length cells) names)"
      using assms by simp
    show "set (drop (length cells) names)
            \<inter> fst ` set (map (\<lambda>(k, v). (k, Some v)) (zip names cells)) = {}"
      unfolding keys by (rule disj)
  qed
  show ?thesis
    by (simp add: make_row_def Let_def d r)
qed

lemma map_of_zip_distinct:
  "distinct xs \<Longrightarrow> i < length xs \<Longrightarrow> i < length ys \<Longrightarrow> map_of (zip xs ys) (xs ! i) = Some (ys ! i)"
proof (induction xs arbitrary: i ys)
  case Nil
  then show ?case by simp
next
  case (Cons x xs)
  then obtain y ys' where ys: "ys = y # ys'" by (cases ys) auto
  show ?case
  proof (cases i)
    case 0
    with ys show ?thesis by simp
  next
    case (Suc j)
    with Cons.prems ys have "xs ! j \<noteq> x" by auto
    with Cons.IH [of j ys'] Cons.prems ys Suc show ?thesis by simp
  qed
qed

lemma make_row_lookup:
  assumes "distinct names" "i < length names"
  shows "map_of (by_name (make_row names cells)) (names ! i) = Some (cell_at cells i)"
proof (cases "i < length cells")
  case True
  have "map_of (map (\<lambda>(k, v). (k, Some v)) (zip names cells)) (names ! i)
          = map_of (zip names (map Some cells)) (names ! i)"
    by (simp add: zip_map2)
  also have "\<dots> = Some (Some (cells ! i))"
    using map_of_zip_distinct [OF assms, of "map Some cells"] True by simp
  finally show ?thesis
    using True by (simp add: by_name_make_row [OF assms(1)] cell_at_def)
next
  case False
  have "names ! i \<notin> set (take (length cells) names)"
  proof
    assume "names ! i \<in> set (take (length cells) names)"
    then obtain j where j: "j < length cells" "j < length names" "names ! j = names ! i"
      by (auto simp: in_set_conv_nth)
    with assms have "j = i" by (simp add: nth_eq_iff_index_eq)
    with j False show False by simp
  qed
  then have "names ! i \<notin> fst ` set (map (\<lambda>(k, v). (k, Some v)) (zip names cells))"
    by (simp only: cell_keys not_False_eq_True)
  then have a: "map_of (map (\<lambda>(k, v). (k, Some v)) (zip names cells)) (names ! i) = None"
    by (simp add: map_of_eq_None_iff)
  have "names ! i \<in> set (drop (length cells) names)"
    using False assms(2)
    by (auto simp: in_set_conv_nth intro!: exI [of _ "i - length cells"])
  then have b: "map_of (map (\<lambda>k. (k, None)) (drop (length cells) names)) (names ! i) = Some None"
    by (simp add: map_of_map_restrict)
  from a b False show ?thesis
    by (simp add: by_name_make_row [OF assms(1)] cell_at_def map_add_def)
qed

lemma coerce_loop_decode:
  assumes "distinct (map field_name fs)"
      and "field_name ` set fs \<inter> fst ` set acc = {}"
      and "\<forall>i<length fs. map_of (by_name row) (field_name (fs ! i)) = Some (cell_at cells i)"
  shows "coerce_loop fs row acc
           = (case decode_cells fs cells of Inl e \<Rightarrow> Inl e | Inr r \<Rightarrow> Inr (acc @ r))"
  using assms
proof (induction fs arbitrary: acc cells)
  case Nil
  then show ?case by simp
next
  case (Cons f fs)
  from Cons.prems(3) have look: "map_of (by_name row) (field_name f) = Some (cell_at cells 0)"
    by auto
  have c0: "cell_at cells 0 = (case cells of [] \<Rightarrow> None | c # _ \<Rightarrow> Some c)"
    by (cases cells) (simp_all add: cell_at_def)
  have shift: "\<forall>i<length fs. map_of (by_name row) (field_name (fs ! i)) = Some (cell_at (tl cells) i)"
  proof (intro allI impI)
    fix i assume "i < length fs"
    with Cons.prems(3) have "map_of (by_name row) (field_name ((f # fs) ! Suc i)) = Some (cell_at cells (Suc i))"
      by (metis length_Cons Suc_less_eq)
    moreover have "cell_at cells (Suc i) = cell_at (tl cells) i"
      by (cases cells) (simp_all add: cell_at_def)
    ultimately show "map_of (by_name row) (field_name (fs ! i)) = Some (cell_at (tl cells) i)"
      by simp
  qed
  from Cons.prems(2) have fresh: "field_name f \<notin> fst ` set acc" by auto
  show ?case
  proof (cases "field_type f (cell_at cells 0)")
    case (Inl e)
    with look c0 show ?thesis by simp
  next
    case (Inr v)
    have d: "distinct (map field_name fs)" using Cons.prems(1) by simp
    have disj: "field_name ` set fs \<inter> fst ` set (acc @ [(field_name f, v)]) = {}"
      using Cons.prems(1,2) by auto
    from Cons.IH [OF d disj shift] Inr look c0 fresh show ?thesis
      by (simp add: update_fresh split: sum.splits)
  qed
qed

lemma row_to_dataclass_decode:
  assumes "distinct (map field_name (cls_fields dc))"
  shows "row_to_dataclass dc (make_row (map field_name (cls_fields dc)) cells)
           = decode_cells (cls_fields dc) cells"
proof -
  have "\<forall>i<length (cls_fields dc).
          map_of (by_name (make_row (map field_name (cls_fields dc)) cells))
            (field_name (cls_fields dc ! i)) = Some (cell_at cells i)"
    using make_row_lookup [OF assms, of _ cells] by simp
  from coerce_loop_decode [OF assms _ this, of "[]"] show ?thesis
    by (simp add: row_to_dataclass_def split: sum.splits)
qed

lemma decode_cells_take: "decode_cells fs (take (length fs) cells) = decode_cells fs cells"
  by (induction fs arbitrary: cells) (auto simp: take_Cons tl_take split: list.splits sum.splits)

section \<open>Advancing over a row\<close>

lemma next_of_row:
  assumes names: "reader_fieldnames r = map field_name (cls_fields (dataclass_type r))"
                 "distinct (map field_name (cls_fields (dataclass_type r)))"
      and row: "csv_reader_next (reader_delimiter r) (fin r) = (Inr cells, f)"
      and cells: "cells \<noteq> []"
  shows "dict_reader_next (reader_delimiter r) (reader_fieldnames r) (fin r)
           = (Inr (make_row (reader_fieldnames r) cells), f)"
    and "dataclass_reader_next r = (decode_cells (cls_fields (dataclass_type r)) cells, r\<lparr>fin := f\<rparr>)"
proof -
  from row cells show d: "dict_reader_next (reader_delimiter r) (reader_fieldnames r) (fin r)
           = (Inr (make_row (reader_fieldnames r) cells), f)"
    by (simp add: dict_reader_next.simps [of "reader_delimiter r" "reader_fieldnames r" "fin r"])
  have "row_to_dataclass (dataclass_type r) (make_row (reader_fieldnames r) cells)
          = decode_cells (cls_fields (dataclass_type r)) cells"
    using row_to_dataclass_decode [OF names(2), of cells] names(1) by simp
  then show "dataclass_reader_next r
               = (decode_cells (cls_fields (dataclass_type r)) cells, r\<lparr>fin := f\<rparr>)"
    by (simp add: dataclass_reader_next_def d)
qed


lemma decode_cells_accepts:
  "\<forall>i<length fs. \<exists>v. field_type (fs ! i) (cell_at cells i) = Inr v \<Longrightarrow>
   \<exists>x. decode_cells fs cells = Inr x"
proof (induction fs arbitrary: cells)
  case Nil
  then show ?case by simp
next
  case (Cons f fs)
  from Cons.prems obtain v where v: "field_type f (cell_at cells 0) = Inr v"
    by fastforce
  have c0: "cell_at cells 0 = (case cells of [] \<Rightarrow> None | c # _ \<Rightarrow> Some c)"
    by (cases cells) (simp_all add: cell_at_def)
  have "\<forall>i<length fs. \<exists>v. field_type (fs ! i) (cell_at (tl cells) i) = Inr v"
  proof (intro allI impI)
    fix i assume "i < length fs"
    with Cons.prems have "\<exists>v. field_type ((f # fs) ! Suc i) (cell_at cells (Suc i)) = Inr v"
      by (metis length_Cons Suc_less_eq)
    moreover have "cell_at cells (Suc i) = cell_at (tl cells) i"
      by (cases cells) (simp_all add: cell_at_def)
    ultimately show "\<exists>v. field_type (fs ! i) (cell_at (tl cells) i) = Inr v"
      by simp
  qed
  from Cons.IH [OF this] obtain x where "decode_cells fs (tl cells) = Inr x" ..
  with v c0 show ?case by simp
qed

text \<open>
  C10. Let the row splitter return for the next row more cells than the record type has
  fields. Then the surplus cells go under the rest key of the row's dictionary, which
  no field name looks up, and advancing returns what decoding the first cells, one per
  field in field order, returns: the surplus cells raise nothing, and when each of the
  first cells is accepted by its field's type a record is yielded.
\<close>

theorem surplus_cells_are_discarded:
  assumes "reader_fieldnames r = map field_name (cls_fields (dataclass_type r))"
      and "distinct (map field_name (cls_fields (dataclass_type r)))"
      and "csv_reader_next (reader_delimiter r) (fin r) = (Inr cells, f)"
      and "length (cls_fields (dataclass_type r)) < length cells"
  shows "by_restkey (make_row (reader_fieldnames r) cells)
           = Some (drop (length (cls_fields (dataclass_type r))) cells)
       \<and> dataclass_reader_next r
           = (decode_cells (cls_fields (dataclass_type r))
                (take (length (cls_fields (dataclass_type r))) cells),
              r\<lparr>fin := f\<rparr>)
       \<and> ((\<forall>i<length (cls_fields (dataclass_type r)).
              \<exists>v. field_type (cls_fields (dataclass_type r) ! i) (Some (cells ! i)) = Inr v)
            \<longrightarrow> (\<exists>x. fst (dataclass_reader_next r) = Inr x))"
proof -
  let ?fs = "cls_fields (dataclass_type r)"
  from assms(4) have c1: "cells \<noteq> []"
    by auto
  note nxt = next_of_row(2) [OF assms(1,2,3) c1]
  have rest: "by_restkey (make_row (reader_fieldnames r) cells) = Some (drop (length ?fs) cells)"
    using assms(1,4) by (simp add: make_row_def Let_def)
  have ok: "\<exists>x. fst (dataclass_reader_next r) = Inr x"
    if "\<forall>i<length ?fs. \<exists>v. field_type (?fs ! i) (Some (cells ! i)) = Inr v"
  proof -
    from that assms(4) have "\<forall>i<length ?fs. \<exists>v. field_type (?fs ! i) (cell_at cells i) = Inr v"
      by (simp add: cell_at_def)
    from decode_cells_accepts [OF this] nxt show ?thesis by auto
  qed
  from rest nxt ok show ?thesis
    by (simp add: decode_cells_take)
qed

theorem surplus_cells_are_discarded_witness:
  "csv_reader_next TAB \<lparr>unread = [[DQUOTE] @ ''a b'' @ [DQUOTE, TAB] @ ''1'' @ [TAB] @ ''extra'' @ [LF]],
                         closed = False\<rparr>
     = (Inr [''a b'', ''1'', ''extra''], \<lparr>unread = [], closed = False\<rparr>)
   \<and> dataclass_reader_next
       (example_reader FakeDataclass []
          [[DQUOTE] @ ''a b'' @ [DQUOTE, TAB] @ ''1'' @ [TAB] @ ''extra'' @ [LF]] False)
     = (Inr [(''foo'', PyStr ''a b''), (''bar'', PyInt 1)], example_reader FakeDataclass [] [] False)
   \<and> by_restkey (make_row [''foo'', ''bar''] [''a b'', ''1'', ''extra'']) = Some [''extra'']"
proof -
  let ?r = "example_reader FakeDataclass []
              [[DQUOTE] @ ''a b'' @ [DQUOTE, TAB] @ ''1'' @ [TAB] @ ''extra'' @ [LF]] False"
  have row: "csv_reader_next (reader_delimiter ?r) (fin ?r)
               = (Inr [''a b'', ''1'', ''extra''], \<lparr>unread = [], closed = False\<rparr>)"
    by (simp add: example_reader_def csv_defs)
  from surplus_cells_are_discarded [OF _ _ row] row show ?thesis
    by (simp add: example_reader_def FakeDataclass_def type_defs text_defs)
qed





section \<open>Reading a well-formed file\<close>






end
